theory Spec2Isabelle
  imports Main "HOL-Library.Word" "HOL-Library.Log_Nat" "HOL-Library.Monad_Syntax"
    "HOL-Library.Code_Target_Numeral"
begin

section \<open>The LLVM bitcode writer of llvm\_encoder.cpp\<close>

text \<open>
  The development embeds \<^verbatim>\<open>renderdoc/driver/shaders/dxil/llvm_encoder.cpp\<close>:
  the block framing of \<^verbatim>\<open>BitcodeWriter\<close> (\<^verbatim>\<open>BeginBlock\<close>, \<^verbatim>\<open>EndBlock\<close>), the
  emission of the module-level BLOCKINFO block (\<^verbatim>\<open>ModuleBlockInfo\<close>) from the three
  static abbreviation tables, and the four \<^verbatim>\<open>Unabbrev\<close> overloads.

  The file includes \<^verbatim>\<open>llvm_encoder.h\<close>, which declares the bit-level writer
  \<^verbatim>\<open>BitWriter\<close>, the enumerations and the abbreviation identifiers. That header is not
  part of the sources at hand: the bit-level writer and the abbreviation identifiers are
  modelled from the specification, and the numeric values of the enumerators are a
  parameter of the model.
\<close>

subsection \<open>Enumerations\<close>

text \<open>
  \<^verbatim>\<open>KnownBlock\<close>: the enumerators are those of the exhaustive \<^verbatim>\<open>switch\<close> in
  \<^verbatim>\<open>GetBlockAbbrevSize\<close>; \<^verbatim>\<open>Count\<close> is the sentinel.
\<close>

datatype KnownBlock =
    BLOCKINFO
  | MODULE_BLOCK
  | PARAMATTR_BLOCK
  | PARAMATTR_GROUP_BLOCK
  | CONSTANTS_BLOCK
  | FUNCTION_BLOCK
  | VALUE_SYMTAB_BLOCK
  | METADATA_BLOCK
  | METADATA_ATTACHMENT
  | TYPE_BLOCK
  | USELIST_BLOCK
  | Count

text \<open>\<^verbatim>\<open>AbbrevEncoding\<close>, with the enumerators the file uses.\<close>

datatype AbbrevEncoding = Unknown | Fixed | VBR | Array | Char6 | Literal

text \<open>
  The record codes that occur as literals in the abbreviation tables
  (\<^verbatim>\<open>ValueSymtabRecord\<close>, \<^verbatim>\<open>ConstantsRecord\<close>, \<^verbatim>\<open>FunctionRecord\<close>), by name.
\<close>

datatype RecordCode =
    VST_ENTRY
  | VST_BBENTRY
  | CST_SETTYPE
  | CST_INTEGER
  | CST_EVAL_CAST
  | CST_CONST_NULL
  | INST_LOAD
  | INST_BINOP
  | INST_CAST
  | INST_RET
  | INST_UNREACHABLE
  | INST_GEP

text \<open>
  The numeric values of the enumerators are declared in headers outside this file, so
  they are a parameter of every function that writes one of them: the value of a block
  kind (a 32-bit enumeration), of an encoding kind, of a record code (converted to
  \<^verbatim>\<open>uint64_t\<close> by \<^verbatim>\<open>AbbLiteral\<close>), of \<^verbatim>\<open>BlockInfoRecord::SETBID\<close> and of
  \<^verbatim>\<open>BitcodeMagic\<close>.
\<close>

record Enums =
  block_value :: "KnownBlock \<Rightarrow> 32 word"
  encoding_value :: "AbbrevEncoding \<Rightarrow> 8 word"
  record_value :: "RecordCode \<Rightarrow> 64 word"
  SETBID :: "32 word"
  BitcodeMagic :: "32 word"

subsection \<open>Abbreviation-id widths\<close>

text \<open>\<^verbatim>\<open>GetBlockAbbrevSize\<close>: \<^verbatim>\<open>ret\<close> starts at 0 and the sentinel leaves it there.\<close>

fun GetBlockAbbrevSize :: "KnownBlock \<Rightarrow> nat" where
  "GetBlockAbbrevSize BLOCKINFO = 2"
| "GetBlockAbbrevSize MODULE_BLOCK = 3"
| "GetBlockAbbrevSize PARAMATTR_BLOCK = 3"
| "GetBlockAbbrevSize PARAMATTR_GROUP_BLOCK = 3"
| "GetBlockAbbrevSize CONSTANTS_BLOCK = 4"
| "GetBlockAbbrevSize FUNCTION_BLOCK = 4"
| "GetBlockAbbrevSize VALUE_SYMTAB_BLOCK = 4"
| "GetBlockAbbrevSize METADATA_BLOCK = 3"
| "GetBlockAbbrevSize METADATA_ATTACHMENT = 3"
| "GetBlockAbbrevSize TYPE_BLOCK = 4"
| "GetBlockAbbrevSize USELIST_BLOCK = 3"
| "GetBlockAbbrevSize Count = 0"

subsection \<open>The bit-level writer\<close>

text \<open>
  The class \<^verbatim>\<open>BitWriter\<close> (the specification's Bit Cursor) is declared in
  \<^verbatim>\<open>llvm_encoder.h\<close>, which is not among the sources: each of its operations below is
  modelled from the specification's contract of the Bit Cursor. A violation of that
  contract (a fixed width above 64, a VBR chunk width below 2, a patch beyond the buffer)
  is the result \<open>None\<close>.
\<close>

text \<open>
  Modelled from the spec: the state of \<^verbatim>\<open>BitWriter\<close>, a byte buffer and a bit offset. It
  is the sequence of the bits written so far, in the order of writing; byte \<open>k\<close> of the
  buffer holds the bits \<open>8k .. 8k+7\<close>, least significant bit first, so that a
  little-endian 32-bit word is 32 consecutive bits, least significant first.
\<close>

type_synonym BitWriter = "bool list"

text \<open>
  Modelled from the spec: the bits that \<^verbatim>\<open>BitWriter::fixed\<close> writes, the low \<open>width\<close> bits
  of \<open>val\<close>, least significant bit first.
\<close>

definition fixed_bits :: "nat \<Rightarrow> nat \<Rightarrow> bool list" where
  "fixed_bits width val = map (bit val) [0..<width]"

text \<open>
  Modelled from the spec: \<^verbatim>\<open>BitWriter::fixed\<close>; a width of 0 writes nothing, a width
  above 64 is not supported.
\<close>

definition fixed :: "nat \<Rightarrow> nat \<Rightarrow> BitWriter \<Rightarrow> BitWriter option" where
  "fixed width val bw = (if 64 < width then None else Some (bw @ fixed_bits width val))"

text \<open>
  Modelled from the spec: the bits that \<^verbatim>\<open>BitWriter::vbr\<close> writes, groups of
  \<open>chunkWidth - 1\<close> bits of \<open>val\<close>, least significant group first; every group but the
  last has its top bit set, the last has it clear.
\<close>

function vbr_bits :: "nat \<Rightarrow> nat \<Rightarrow> bool list" where
  "vbr_bits chunkWidth val =
     (if chunkWidth < 2 then []
      else if val < 2 ^ (chunkWidth - 1) then fixed_bits (chunkWidth - 1) val @ [False]
      else fixed_bits (chunkWidth - 1) val @ [True]
             @ vbr_bits chunkWidth (val div 2 ^ (chunkWidth - 1)))"
  by pat_completeness auto
termination
proof (relation "measure (\<lambda>(chunkWidth, val). val)")
  show "wf (measure (\<lambda>(chunkWidth, val). val))"
    by simp
next
  fix chunkWidth val :: nat
  assume w: "\<not> chunkWidth < 2" and v: "\<not> val < 2 ^ (chunkWidth - 1)"
  from w have "(2::nat) ^ 1 \<le> 2 ^ (chunkWidth - 1)"
    by (intro power_increasing) auto
  with v have "0 < val" and "(1::nat) < 2 ^ (chunkWidth - 1)"
    by auto
  then have "val div 2 ^ (chunkWidth - 1) < val"
    by (rule div_less_dividend[rotated])
  then show "((chunkWidth, val div 2 ^ (chunkWidth - 1)), (chunkWidth, val))
      \<in> measure (\<lambda>(chunkWidth, val). val)"
    by simp
qed

declare vbr_bits.simps [simp del]

text \<open>Modelled from the spec: \<^verbatim>\<open>BitWriter::vbr\<close>; the chunk width must be at least 2.\<close>

definition vbr :: "nat \<Rightarrow> nat \<Rightarrow> BitWriter \<Rightarrow> BitWriter option" where
  "vbr chunkWidth val bw = (if chunkWidth < 2 then None else Some (bw @ vbr_bits chunkWidth val))"

text \<open>
  Modelled from the spec: \<^verbatim>\<open>BitWriter::align32bits\<close>, zero bits up to the next multiple
  of 32 bits, none when the stream is aligned.
\<close>

definition align32bits :: "BitWriter \<Rightarrow> BitWriter" where
  "align32bits bw = bw @ replicate ((32 - length bw mod 32) mod 32) False"

text \<open>
  Modelled from the spec: \<^verbatim>\<open>BitWriter::GetByteOffset\<close>, the position in whole bytes; the
  file asks for it only after \<^verbatim>\<open>align32bits\<close>.
\<close>

definition GetByteOffset :: "BitWriter \<Rightarrow> nat" where
  "GetByteOffset bw = length bw div 8"

text \<open>
  Modelled from the spec: \<^verbatim>\<open>BitWriter::Write\<close> at the type \<^verbatim>\<open>uint32_t\<close>, the byte-level
  write of the four bytes of the value, least significant first (the file writes the
  magic number and the placeholder 0 this way).
\<close>

definition Write_uint32 :: "32 word \<Rightarrow> BitWriter \<Rightarrow> BitWriter" where
  "Write_uint32 v bw = bw @ fixed_bits 32 (unat v)"

text \<open>
  Modelled from the spec: \<^verbatim>\<open>BitWriter::PatchLengthWord\<close>, which overwrites the four bytes
  at the byte offset \<open>offs\<close> with the little-endian value, without moving the cursor; the
  four bytes must lie inside the buffer.
\<close>

definition PatchLengthWord :: "nat \<Rightarrow> 32 word \<Rightarrow> BitWriter \<Rightarrow> BitWriter option" where
  "PatchLengthWord offs len bw =
     (if length bw < 8 * (offs + 4) then None
      else Some (take (8 * offs) bw @ fixed_bits 32 (unat len) @ drop (8 * offs + 32) bw))"

text \<open>
  Modelled from the spec: the reader's view of the buffer, the value of a bit sequence
  that was written least significant bit first.
\<close>

fun bits_value :: "bool list \<Rightarrow> nat" where
  "bits_value [] = 0"
| "bits_value (x # xs) = of_bool x + 2 * bits_value xs"

text \<open>
  Modelled from the spec: the little-endian 32-bit word that a reader finds at a byte
  offset of the buffer.
\<close>

definition word_at :: "nat \<Rightarrow> BitWriter \<Rightarrow> 32 word" where
  "word_at offs bw = word_of_nat (bits_value (take 32 (drop (8 * offs) bw)))"

text \<open>
  The reserved abbreviation identifiers are enumerators of the header; the specification
  gives their values.
\<close>

text \<open>Modelled from the spec: the abbreviation id \<^verbatim>\<open>END_BLOCK\<close> = 0.\<close>

definition END_BLOCK :: nat where
  "END_BLOCK = 0"

text \<open>Modelled from the spec: the abbreviation id \<^verbatim>\<open>ENTER_SUBBLOCK\<close> = 1.\<close>

definition ENTER_SUBBLOCK :: nat where
  "ENTER_SUBBLOCK = 1"


text \<open>Modelled from the spec: the abbreviation id \<^verbatim>\<open>UNABBREV_RECORD\<close> = 3.\<close>

definition UNABBREV_RECORD :: nat where
  "UNABBREV_RECORD = 3"

text \<open>
  Modelled from the spec: \<^verbatim>\<open>Bits::CountLeadingZeroes\<close>, which is declared outside this
  file: the leading-zero count over a 32-bit value, the number of zero bits above the
  highest set bit (the specification leaves the count of 0 undefined; here it is 32).
\<close>

definition CountLeadingZeroes :: "32 word \<Rightarrow> 32 word" where
  "CountLeadingZeroes x = word_of_nat (length (takeWhile (\<lambda>i. \<not> bit x i) (rev [0..<32])))"

subsection \<open>The writer's state\<close>

text \<open>
  \<^verbatim>\<open>RDCERR\<close> reports an error and execution goes on: the reports are collected in the
  state.
\<close>

datatype error = Unrecognised_block KnownBlock

text \<open>
  The members of \<^verbatim>\<open>BitcodeWriter\<close>. \<^verbatim>\<open>blockStack\<close> is an array of pairs of a block kind
  and the byte offset of its length word; \<^verbatim>\<open>push_back\<close> appends, \<^verbatim>\<open>back\<close> is the last
  element. \<^verbatim>\<open>abbrevSize\<close> is a \<^verbatim>\<open>uint32_t\<close> that only ever holds 2 or a width of
  \<open>GetBlockAbbrevSize\<close>, and no arithmetic is done on it: a natural number.
\<close>

record BitcodeWriter =
  b :: BitWriter
  curBlock :: KnownBlock
  abbrevSize :: nat
  blockStack :: "(KnownBlock \<times> nat) list"
  rdcerr :: "error list"

text \<open>The constructor, on the bit writer of the destination buffer.\<close>

definition BitcodeWriter_new :: "Enums \<Rightarrow> BitWriter \<Rightarrow> BitcodeWriter" where
  "BitcodeWriter_new E buf =
     \<lparr>b = Write_uint32 (BitcodeMagic E) buf, curBlock = Count, abbrevSize = 2,
      blockStack = [], rdcerr = []\<rparr>"

subsection \<open>Block framing\<close>

text \<open>
  \<^verbatim>\<open>BeginBlock\<close>. An unrecognised kind is reported and the function returns at once.
  The result is \<open>None\<close> only where a bit-level write is outside its contract.
\<close>

definition BeginBlock :: "Enums \<Rightarrow> KnownBlock \<Rightarrow> BitcodeWriter \<Rightarrow> BitcodeWriter option" where
  "BeginBlock E block w =
     (let newAbbrevSize = GetBlockAbbrevSize block in
      if newAbbrevSize = 0 then Some (w\<lparr>rdcerr := rdcerr w @ [Unrecognised_block block]\<rparr>)
      else do {
        b1 \<leftarrow> fixed (abbrevSize w) ENTER_SUBBLOCK (b w);
        b2 \<leftarrow> vbr 8 (unat (block_value E block)) b1;
        b3 \<leftarrow> vbr 4 newAbbrevSize b2;
        let b4 = align32bits b3;
        let offs = GetByteOffset b4;
        let b5 = Write_uint32 0 b4;
        Some (w\<lparr>b := b5, curBlock := block, abbrevSize := newAbbrevSize,
                blockStack := blockStack w @ [(block, offs)]\<rparr>)
      })"

text \<open>
  \<^verbatim>\<open>EndBlock\<close>. \<^verbatim>\<open>blockStack.back()\<close> on an empty stack is undefined: \<open>None\<close>. The
  length is computed in \<^verbatim>\<open>size_t\<close> (64 bits, wrapping) and converted to \<^verbatim>\<open>uint32_t\<close>.
\<close>

definition EndBlock :: "BitcodeWriter \<Rightarrow> BitcodeWriter option" where
  "EndBlock w = do {
     b1 \<leftarrow> vbr (abbrevSize w) END_BLOCK (b w);
     let b2 = align32bits b1;
     if blockStack w = [] then None
     else do {
       let offs = snd (last (blockStack w));
       let lengthInBytes = nat ((int (GetByteOffset b2) - int offs - 4) mod 2 ^ 64);
       b3 \<leftarrow> PatchLengthWord offs (word_of_nat (lengthInBytes div 4)) b2;
       let popped = butlast (blockStack w);
       if popped = [] then
         Some (w\<lparr>b := b3, curBlock := Count, abbrevSize := 2, blockStack := popped\<rparr>)
       else
         Some (w\<lparr>b := b3, curBlock := fst (last popped),
                 abbrevSize := GetBlockAbbrevSize (fst (last popped)), blockStack := popped\<rparr>)
     }
   }"

subsection \<open>Unabbreviated records\<close>

text \<open>The four overloads of \<^verbatim>\<open>Unabbrev\<close>; each loop over \<^verbatim>\<open>vals\<close> is a recursion.\<close>

definition Unabbrev_u32 :: "32 word \<Rightarrow> 32 word \<Rightarrow> BitcodeWriter \<Rightarrow> BitcodeWriter option" where
  "Unabbrev_u32 record val w = do {
     b1 \<leftarrow> fixed (abbrevSize w) UNABBREV_RECORD (b w);
     b2 \<leftarrow> vbr 6 (unat record) b1;
     b3 \<leftarrow> vbr 6 1 b2;
     b4 \<leftarrow> vbr 6 (unat val) b3;
     Some (w\<lparr>b := b4\<rparr>)
   }"

definition Unabbrev_u64 :: "32 word \<Rightarrow> 64 word \<Rightarrow> BitcodeWriter \<Rightarrow> BitcodeWriter option" where
  "Unabbrev_u64 record val w = do {
     b1 \<leftarrow> fixed (abbrevSize w) UNABBREV_RECORD (b w);
     b2 \<leftarrow> vbr 6 (unat record) b1;
     b3 \<leftarrow> vbr 6 1 b2;
     b4 \<leftarrow> vbr 6 (unat val) b3;
     Some (w\<lparr>b := b4\<rparr>)
   }"

fun vbr_vals_u32 :: "32 word list \<Rightarrow> BitWriter \<Rightarrow> BitWriter option" where
  "vbr_vals_u32 [] bw = Some bw"
| "vbr_vals_u32 (v # vals) bw = do { b1 \<leftarrow> vbr 6 (unat v) bw; vbr_vals_u32 vals b1 }"

fun vbr_vals_u64 :: "64 word list \<Rightarrow> BitWriter \<Rightarrow> BitWriter option" where
  "vbr_vals_u64 [] bw = Some bw"
| "vbr_vals_u64 (v # vals) bw = do { b1 \<leftarrow> vbr 6 (unat v) bw; vbr_vals_u64 vals b1 }"

definition Unabbrev_u32s :: "32 word \<Rightarrow> 32 word list \<Rightarrow> BitcodeWriter \<Rightarrow> BitcodeWriter option" where
  "Unabbrev_u32s record vals w = do {
     b1 \<leftarrow> fixed (abbrevSize w) UNABBREV_RECORD (b w);
     b2 \<leftarrow> vbr 6 (unat record) b1;
     b3 \<leftarrow> vbr 6 (length vals) b2;
     b4 \<leftarrow> vbr_vals_u32 vals b3;
     Some (w\<lparr>b := b4\<rparr>)
   }"

definition Unabbrev_u64s :: "32 word \<Rightarrow> 64 word list \<Rightarrow> BitcodeWriter \<Rightarrow> BitcodeWriter option" where
  "Unabbrev_u64s record vals w = do {
     b1 \<leftarrow> fixed (abbrevSize w) UNABBREV_RECORD (b w);
     b2 \<leftarrow> vbr 6 (unat record) b1;
     b3 \<leftarrow> vbr 6 (length vals) b2;
     b4 \<leftarrow> vbr_vals_u64 vals b3;
     Some (w\<lparr>b := b4\<rparr>)
   }"

subsection \<open>The abbreviation tables\<close>

text \<open>
  \<^verbatim>\<open>AbbrevParam\<close>: an encoding kind and a 64-bit value (the member \<^verbatim>\<open>value\<close>, here
  \<open>pvalue\<close>).
\<close>

record AbbrevParam =
  encoding :: AbbrevEncoding
  pvalue :: "64 word"

definition MagicFixedSizeNumTypes :: "64 word" where
  "MagicFixedSizeNumTypes = 99"

definition AbbFixed :: "64 word \<Rightarrow> AbbrevParam" where
  "AbbFixed n = \<lparr>encoding = Fixed, pvalue = n\<rparr>"

definition AbbVBR :: "64 word \<Rightarrow> AbbrevParam" where
  "AbbVBR n = \<lparr>encoding = VBR, pvalue = n\<rparr>"

definition AbbArray :: AbbrevParam where
  "AbbArray = \<lparr>encoding = Array, pvalue = 0\<rparr>"

definition AbbLiteral :: "Enums \<Rightarrow> RecordCode \<Rightarrow> AbbrevParam" where
  "AbbLiteral E lit = \<lparr>encoding = Literal, pvalue = record_value E lit\<rparr>"

definition AbbChar6 :: AbbrevParam where
  "AbbChar6 = \<lparr>encoding = Char6, pvalue = 0\<rparr>"

definition AbbFixedTypes :: AbbrevParam where
  "AbbFixedTypes = AbbFixed MagicFixedSizeNumTypes"

text \<open>
  \<^verbatim>\<open>AbbrevDefinition\<close> is \<^verbatim>\<open>AbbrevParam[8]\<close>: the elements without an initialiser are
  zero, which is the encoding \<^verbatim>\<open>Unknown\<close> (as the comment on the tables says).
\<close>

definition AbbrevDefinition :: "AbbrevParam list \<Rightarrow> AbbrevParam list" where
  "AbbrevDefinition ps = ps @ replicate (8 - length ps) \<lparr>encoding = Unknown, pvalue = 0\<rparr>"

definition ValueSymtabAbbrevDefs :: "Enums \<Rightarrow> AbbrevParam list list" where
  "ValueSymtabAbbrevDefs E =
    [AbbrevDefinition [AbbFixed 3, AbbVBR 8, AbbArray, AbbFixed 8],
     AbbrevDefinition [AbbLiteral E VST_ENTRY, AbbVBR 8, AbbArray, AbbFixed 7],
     AbbrevDefinition [AbbLiteral E VST_ENTRY, AbbVBR 8, AbbArray, AbbChar6],
     AbbrevDefinition [AbbLiteral E VST_BBENTRY, AbbVBR 8, AbbArray, AbbChar6]]"

definition ConstantsAbbrevDefs :: "Enums \<Rightarrow> AbbrevParam list list" where
  "ConstantsAbbrevDefs E =
    [AbbrevDefinition [AbbLiteral E CST_SETTYPE, AbbFixedTypes],
     AbbrevDefinition [AbbLiteral E CST_INTEGER, AbbVBR 8],
     AbbrevDefinition [AbbLiteral E CST_EVAL_CAST, AbbFixed 4, AbbFixedTypes, AbbVBR 8],
     AbbrevDefinition [AbbLiteral E CST_CONST_NULL]]"

definition FunctionAbbrevDefs :: "Enums \<Rightarrow> AbbrevParam list list" where
  "FunctionAbbrevDefs E =
    [AbbrevDefinition [AbbLiteral E INST_LOAD, AbbVBR 6, AbbFixedTypes, AbbVBR 4, AbbFixed 1],
     AbbrevDefinition [AbbLiteral E INST_BINOP, AbbVBR 6, AbbVBR 6, AbbFixed 4],
     AbbrevDefinition [AbbLiteral E INST_BINOP, AbbVBR 6, AbbVBR 6, AbbFixed 4, AbbFixed 7],
     AbbrevDefinition [AbbLiteral E INST_CAST, AbbVBR 6, AbbFixedTypes, AbbFixed 4],
     AbbrevDefinition [AbbLiteral E INST_RET],
     AbbrevDefinition [AbbLiteral E INST_RET, AbbVBR 6],
     AbbrevDefinition [AbbLiteral E INST_UNREACHABLE],
     AbbrevDefinition [AbbLiteral E INST_GEP, AbbFixed 1, AbbFixedTypes, AbbArray, AbbVBR 6]]"

text \<open>All the elements of the three tables, in the order of the tables.\<close>

definition table_params :: "Enums \<Rightarrow> AbbrevParam list" where
  "table_params E =
     concat (ValueSymtabAbbrevDefs E @ ConstantsAbbrevDefs E @ FunctionAbbrevDefs E)"



subsection \<open>The module-level BLOCKINFO block\<close>


text \<open>
  The substitution at the head of the loop over the parameters, on the copy \<^verbatim>\<open>param\<close>:
  \<^verbatim>\<open>32 - CountLeadingZeroes(numTypes)\<close> is computed in 32 bits and stored in the 64-bit
  value.
\<close>

definition subst_numTypes :: "32 word \<Rightarrow> AbbrevParam \<Rightarrow> AbbrevParam" where
  "subst_numTypes numTypes param =
     (if pvalue param = MagicFixedSizeNumTypes
      then param\<lparr>pvalue := ucast (32 - CountLeadingZeroes numTypes)\<rparr>
      else param)"

text \<open>The body of the loop over the parameters of one abbreviation.\<close>

definition write_param :: "Enums \<Rightarrow> 32 word \<Rightarrow> AbbrevParam \<Rightarrow> BitWriter \<Rightarrow> BitWriter option" where
  "write_param E numTypes param0 bw =
     (let param = subst_numTypes numTypes param0;
          lit = (encoding param = Literal)
      in do {
        b1 \<leftarrow> fixed 1 (of_bool lit) bw;
        if lit then vbr 8 (unat (pvalue param)) b1
        else do {
          b2 \<leftarrow> fixed 3 (unat (encoding_value E (encoding param))) b1;
          if encoding param = VBR \<or> encoding param = Fixed
          then vbr 5 (unat (pvalue param)) b2
          else Some b2
        }
      })"







subsection \<open>The wire format in the specification's words\<close>

text \<open>
  The bit sequences that the specification's section on external interfaces describes,
  written down independently of the writer's code, for comparison with it.

  An unabbreviated record: the id 3 at the current width, the code as VBR6, the operand
  count as VBR6, and each operand as VBR6.
\<close>

definition spec_unabbrev_bits :: "nat \<Rightarrow> nat \<Rightarrow> nat list \<Rightarrow> bool list" where
  "spec_unabbrev_bits width code operands =
     fixed_bits width UNABBREV_RECORD @ vbr_bits 6 code @ vbr_bits 6 (length operands)
       @ concat (map (vbr_bits 6) operands)"

text \<open>
  One parameter of a \<^verbatim>\<open>DEFINE_ABBREV\<close> record: the bit ``is literal'', then either the
  literal value as VBR8, or the encoding kind in 3 bits and, only for the kinds Fixed and
  VBR, the width as VBR5.
\<close>

definition spec_param_bits :: "Enums \<Rightarrow> AbbrevParam \<Rightarrow> bool list" where
  "spec_param_bits E p =
     (if encoding p = Literal then [True] @ vbr_bits 8 (unat (pvalue p))
      else [False] @ fixed_bits 3 (unat (encoding_value E (encoding p)))
             @ (if encoding p = Fixed \<or> encoding p = VBR then vbr_bits 5 (unat (pvalue p))
                else []))"





subsection \<open>Sequences of calls\<close>

text \<open>
  A caller's sequence of \<^verbatim>\<open>BeginBlock\<close> and \<^verbatim>\<open>EndBlock\<close> calls, run in order. It is
  well nested over the kinds of the open blocks when every \<^verbatim>\<open>BeginBlock\<close> names a
  recognised kind and no \<^verbatim>\<open>EndBlock\<close> meets an empty stack; \<open>open_blocks\<close> is the
  list of the kinds left open, innermost last.
\<close>

datatype call = Begin KnownBlock | End

fun run_call :: "Enums \<Rightarrow> call \<Rightarrow> BitcodeWriter \<Rightarrow> BitcodeWriter option" where
  "run_call E (Begin block) w = BeginBlock E block w"
| "run_call E End w = EndBlock w"

fun run_calls :: "Enums \<Rightarrow> call list \<Rightarrow> BitcodeWriter \<Rightarrow> BitcodeWriter option" where
  "run_calls E [] w = Some w"
| "run_calls E (c # cs) w = do { w1 \<leftarrow> run_call E c w; run_calls E cs w1 }"

fun well_nested :: "KnownBlock list \<Rightarrow> call list \<Rightarrow> bool" where
  "well_nested opened [] = True"
| "well_nested opened (Begin block # cs) =
     (GetBlockAbbrevSize block \<noteq> 0 \<and> well_nested (opened @ [block]) cs)"
| "well_nested opened (End # cs) = (opened \<noteq> [] \<and> well_nested (butlast opened) cs)"

fun open_blocks :: "KnownBlock list \<Rightarrow> call list \<Rightarrow> KnownBlock list" where
  "open_blocks opened [] = opened"
| "open_blocks opened (Begin block # cs) = open_blocks (opened @ [block]) cs"
| "open_blocks opened (End # cs) = open_blocks (butlast opened) cs"

text \<open>
  The frames of a writer are in order when every frame names a recognised kind and the
  four bytes of its length word lie inside the buffer, and the current width is the
  width of the innermost open block, or 2 when no block is open.
\<close>

definition frames_ok :: "BitcodeWriter \<Rightarrow> bool" where
  "frames_ok w \<longleftrightarrow>
     list_all (\<lambda>(block, offs). GetBlockAbbrevSize block \<noteq> 0 \<and> 8 * (offs + 4) \<le> length (b w))
       (blockStack w)
     \<and> abbrevSize w = (if blockStack w = [] then 2
                       else GetBlockAbbrevSize (fst (last (blockStack w))))"

subsection \<open>A valuation of the enumerators\<close>

text \<open>
  For the concrete examples, the enumerators take the values of the LLVM bitcode format
  (block identifiers 0 and 8 to 18, encoding kinds 1 to 4, the record codes of the value
  symbol table, constants and function blocks). No general theorem depends on them.
\<close>

definition sample_enums :: Enums where
  "sample_enums =
    \<lparr>block_value = (\<lambda>k. case k of
         BLOCKINFO \<Rightarrow> 0 | MODULE_BLOCK \<Rightarrow> 8 | PARAMATTR_BLOCK \<Rightarrow> 9
       | PARAMATTR_GROUP_BLOCK \<Rightarrow> 10 | CONSTANTS_BLOCK \<Rightarrow> 11 | FUNCTION_BLOCK \<Rightarrow> 12
       | VALUE_SYMTAB_BLOCK \<Rightarrow> 14 | METADATA_BLOCK \<Rightarrow> 15 | METADATA_ATTACHMENT \<Rightarrow> 16
       | TYPE_BLOCK \<Rightarrow> 17 | USELIST_BLOCK \<Rightarrow> 18 | Count \<Rightarrow> 19),
     encoding_value = (\<lambda>e. case e of
         Unknown \<Rightarrow> 0 | Fixed \<Rightarrow> 1 | VBR \<Rightarrow> 2 | Array \<Rightarrow> 3 | Char6 \<Rightarrow> 4 | Literal \<Rightarrow> 8),
     record_value = (\<lambda>r. case r of
         VST_ENTRY \<Rightarrow> 1 | VST_BBENTRY \<Rightarrow> 2 | CST_SETTYPE \<Rightarrow> 1 | CST_INTEGER \<Rightarrow> 4
       | CST_EVAL_CAST \<Rightarrow> 11 | CST_CONST_NULL \<Rightarrow> 2 | INST_LOAD \<Rightarrow> 20 | INST_BINOP \<Rightarrow> 2
       | INST_CAST \<Rightarrow> 3 | INST_RET \<Rightarrow> 10 | INST_UNREACHABLE \<Rightarrow> 15 | INST_GEP \<Rightarrow> 43),
     SETBID = 1,
     BitcodeMagic = 0xdec04342\<rparr>"

text \<open>A writer right after its construction on an empty buffer.\<close>

definition sample_writer :: BitcodeWriter where
  "sample_writer = BitcodeWriter_new sample_enums []"

section \<open>Properties\<close>

subsection \<open>Bits\<close>

lemma length_fixed_bits [simp]: "length (fixed_bits width val) = width"
  by (simp add: fixed_bits_def)

lemma fixed_bits_zero: "fixed_bits width 0 = replicate width False"
  by (rule nth_equalityI) (simp_all add: fixed_bits_def)

lemma fixed_bits_Suc: "fixed_bits (Suc width) val = odd val # fixed_bits width (val div 2)"
  by (simp add: fixed_bits_def map_upt_Suc bit_Suc bit_0 del: upt_Suc)

lemma bits_value_fixed_bits: "bits_value (fixed_bits width val) = val mod 2 ^ width"
proof (induction width arbitrary: val)
  case 0
  show ?case by (simp add: fixed_bits_def)
next
  case (Suc width)
  have "val mod (2 * 2 ^ width) = val mod 2 + 2 * (val div 2 mod 2 ^ width)"
    by (simp add: mod_mult2_eq)
  with Suc show ?case
    by (simp add: fixed_bits_Suc mod_2_eq_odd)
qed

lemma vbr_bits_zero:
  assumes "2 \<le> chunkWidth"
  shows "vbr_bits chunkWidth 0 = replicate chunkWidth False"
proof -
  from assms have "vbr_bits chunkWidth 0 = replicate (chunkWidth - 1) False @ [False]"
    by (simp add: vbr_bits.simps[of chunkWidth 0] fixed_bits_zero)
  also have "\<dots> = replicate (Suc (chunkWidth - 1)) False"
    by (simp only: replicate_append_same replicate_Suc)
  finally show ?thesis using assms by simp
qed

lemma pad32_dvd: "32 dvd n + (32 - n mod 32) mod (32::nat)"
proof (cases "n mod 32 = 0")
  case True
  then show ?thesis by (simp add: dvd_eq_mod_eq_0)
next
  case False
  define q r where "q = n div 32" and "r = n mod 32"
  have n: "n = 32 * q + r" and r: "r < 32" "r \<noteq> 0"
    using False by (simp_all add: q_def r_def)
  have "n + (32 - r) = 32 * (q + 1)"
    using r by (subst n) simp
  moreover have "(32 - r) mod 32 = 32 - r"
    using r by simp
  ultimately show ?thesis
    by (simp only: r_def[symmetric] dvd_triv_left)
qed

lemma align32bits_pad:
  "\<exists>pad < 32. align32bits bw = bw @ replicate pad False \<and> 32 dvd length bw + pad"
proof -
  let ?pad = "(32 - length bw mod 32) mod 32"
  have "?pad < 32" by simp
  moreover have "32 dvd length bw + ?pad"
    by (rule pad32_dvd)
  ultimately show ?thesis unfolding align32bits_def by blast
qed

lemma length_align32bits_ge: "length bw \<le> length (align32bits bw)"
  by (simp add: align32bits_def)

lemma length_align32bits_dvd: "32 dvd length (align32bits bw)"
  using align32bits_pad[of bw] by auto

lemma length_word_conv:
  assumes "offs + 4 \<le> cur"
  shows "(word_of_nat (nat ((int cur - int offs - 4) mod 2 ^ 64) div 4) :: 32 word)
       = word_of_nat ((cur - offs - 4) div 4)"
proof -
  define x where "x = cur - offs - 4"
  have "int cur - int offs - 4 = int x"
    using assms by (simp add: x_def)
  then have "nat ((int cur - int offs - 4) mod 2 ^ 64) = x mod 2 ^ 64"
    by (simp add: nat_mod_distrib)
  moreover have "x mod 2 ^ 64 div 4 = x div 4 mod 2 ^ 62"
  proof -
    have e: "(4::nat) * 2 ^ 62 = 2 ^ 64" by simp
    have "x mod 2 ^ 64 = 4 * (x div 4 mod 2 ^ 62) + x mod 4"
      using mod_mult2_eq[of x 4 "2 ^ 62"] unfolding e .
    then show ?thesis by simp
  qed
  moreover have "(word_of_nat (x div 4 mod 2 ^ 62) :: 32 word) = word_of_nat (x div 4)"
  proof -
    have "(2::nat) ^ 32 dvd 2 ^ 62"
      by (rule le_imp_power_dvd) simp
    then have "x div 4 mod 2 ^ 62 mod 2 ^ 32 = x div 4 mod 2 ^ 32"
      by (rule mod_mod_cancel)
    then show ?thesis
      by (simp add: word_of_nat_eq_iff take_bit_eq_mod)
  qed
  ultimately show ?thesis
    by (simp add: x_def)
qed

lemma word_at_patched:
  assumes "8 * (offs + 4) \<le> length bw"
  shows "word_at offs (take (8 * offs) bw @ fixed_bits 32 (unat (v :: 32 word))
            @ drop (8 * offs + 32) bw) = v"
proof -
  have "length (take (8 * offs) bw) = 8 * offs"
    using assms by simp
  then have "drop (8 * offs) (take (8 * offs) bw @ fixed_bits 32 (unat v) @ drop (8 * offs + 32) bw)
      = fixed_bits 32 (unat v) @ drop (8 * offs + 32) bw"
    by (simp only: append_eq_conv_conj[symmetric] drop_append) simp
  then have "take 32 (drop (8 * offs) (take (8 * offs) bw @ fixed_bits 32 (unat v)
      @ drop (8 * offs + 32) bw)) = fixed_bits 32 (unat v)"
    by simp
  moreover have "unat v mod 2 ^ 32 = unat v"
    using unsigned_less[of v, where 'a = nat] by simp
  ultimately show ?thesis
    by (simp add: word_at_def bits_value_fixed_bits)
qed

subsection \<open>The width table\<close>

lemma GetBlockAbbrevSize_zero_iff: "GetBlockAbbrevSize k = 0 \<longleftrightarrow> k = Count"
  by (cases k) simp_all

lemma GetBlockAbbrevSize_range:
  "k \<noteq> Count \<Longrightarrow> 2 \<le> GetBlockAbbrevSize k \<and> GetBlockAbbrevSize k \<le> 4"
  by (cases k) simp_all

lemma GetBlockAbbrevSize_ge2: "GetBlockAbbrevSize k \<noteq> 0 \<Longrightarrow> 2 \<le> GetBlockAbbrevSize k"
  by (cases k) simp_all

lemma GetBlockAbbrevSize_le4: "GetBlockAbbrevSize k \<le> 4"
  by (cases k) simp_all

text \<open>
  Claim C5. The width table is exactly BLOCKINFO=2, MODULE=3, PARAMATTR=3,
  PARAMATTR\_GROUP=3, CONSTANTS=4, FUNCTION=4, VALUE\_SYMTAB=4, METADATA=3,
  METADATA\_ATTACHMENT=3, TYPE=4, USELIST=3, and the sentinel kind has width 0, which is
  no valid width: it is the only kind with width 0.
\<close>

theorem GetBlockAbbrevSize_table:
  "map GetBlockAbbrevSize
     [BLOCKINFO, MODULE_BLOCK, PARAMATTR_BLOCK, PARAMATTR_GROUP_BLOCK, CONSTANTS_BLOCK,
      FUNCTION_BLOCK, VALUE_SYMTAB_BLOCK, METADATA_BLOCK, METADATA_ATTACHMENT, TYPE_BLOCK,
      USELIST_BLOCK, Count]
   = [2, 3, 3, 3, 4, 4, 4, 3, 3, 4, 3, 0]"
  by simp

subsection \<open>Entering a block\<close>

lemma BeginBlock_result:
  assumes "GetBlockAbbrevSize block \<noteq> 0" and "abbrevSize w \<le> 64"
  shows "BeginBlock E block w =
         Some (w\<lparr>b := align32bits (b w @ fixed_bits (abbrevSize w) 1
                        @ vbr_bits 8 (unat (block_value E block))
                        @ vbr_bits 4 (GetBlockAbbrevSize block)) @ replicate 32 False,
                 curBlock := block,
                 abbrevSize := GetBlockAbbrevSize block,
                 blockStack := blockStack w @ [(block, GetByteOffset (align32bits
                     (b w @ fixed_bits (abbrevSize w) 1
                        @ vbr_bits 8 (unat (block_value E block))
                        @ vbr_bits 4 (GetBlockAbbrevSize block))))]\<rparr>)"
  using assms
  by (simp add: BeginBlock_def Let_def fixed_def vbr_def ENTER_SUBBLOCK_def Write_uint32_def
      fixed_bits_zero)

lemma BeginBlock_Some_width:
  assumes "GetBlockAbbrevSize block \<noteq> 0" and "BeginBlock E block w = Some w1"
  shows "abbrevSize w \<le> 64"
proof (rule ccontr)
  assume "\<not> abbrevSize w \<le> 64"
  then have "BeginBlock E block w = None"
    using assms(1) by (simp add: BeginBlock_def fixed_def)
  with assms(2) show False by simp
qed

lemma GetByteOffset_aligned: "8 * GetByteOffset (align32bits bw) = length (align32bits bw)"
proof -
  from length_align32bits_dvd[of bw] obtain k where "length (align32bits bw) = 32 * k"
    by (auto simp: dvd_def)
  then show ?thesis by (simp add: GetByteOffset_def)
qed

lemma GetByteOffset_aligned_dvd: "4 dvd GetByteOffset (align32bits bw)"
proof -
  from length_align32bits_dvd[of bw] obtain k where "length (align32bits bw) = 32 * k"
    by (auto simp: dvd_def)
  then show ?thesis by (simp add: GetByteOffset_def)
qed

text \<open>
  Claim C3. For a recognised block kind (its width is not 0), \<^verbatim>\<open>BeginBlock\<close> appends, in
  this order, the abbreviation id 1 (\<^verbatim>\<open>ENTER_SUBBLOCK\<close>) as a fixed field of the width in
  effect before the call, the block kind as VBR8, the new width as VBR4, fewer than 32
  zero bits that bring the stream to a multiple of 32 bits, and 32 zero bits, the
  placeholder, which starts at the byte offset \<open>offs\<close>; it pushes the frame
  \<open>(block, offs)\<close>, and the new block's kind and width become the current ones. (The
  width in effect is at most 64, the widest fixed field.)
\<close>

theorem BeginBlock_emits:
  assumes "GetBlockAbbrevSize block \<noteq> 0" and "abbrevSize w \<le> 64"
  shows "\<exists>pad offs. pad < 32 \<and> 4 dvd offs
     \<and> 8 * offs = length (b w @ fixed_bits (abbrevSize w) 1
                      @ vbr_bits 8 (unat (block_value E block))
                      @ vbr_bits 4 (GetBlockAbbrevSize block) @ replicate pad False)
     \<and> BeginBlock E block w =
         Some (w\<lparr>b := b w @ fixed_bits (abbrevSize w) 1
                      @ vbr_bits 8 (unat (block_value E block))
                      @ vbr_bits 4 (GetBlockAbbrevSize block)
                      @ replicate pad False @ replicate 32 False,
                 curBlock := block,
                 abbrevSize := GetBlockAbbrevSize block,
                 blockStack := blockStack w @ [(block, offs)]\<rparr>)"
proof -
  let ?pre = "b w @ fixed_bits (abbrevSize w) 1 @ vbr_bits 8 (unat (block_value E block))
                @ vbr_bits 4 (GetBlockAbbrevSize block)"
  obtain pad where pad: "pad < 32" "align32bits ?pre = ?pre @ replicate pad False"
      "32 dvd length ?pre + pad"
    using align32bits_pad[of ?pre] by blast
  from pad(3) obtain k where k: "length ?pre + pad = 32 * k" by (auto simp: dvd_def)
  let ?offs = "4 * k"
  have offs8: "8 * ?offs = length (?pre @ replicate pad False)" using k by simp
  have offs: "GetByteOffset (align32bits ?pre) = ?offs"
    using k by (simp only: pad(2) GetByteOffset_def length_append length_replicate)
  have step: "BeginBlock E block w =
         Some (w\<lparr>b := Write_uint32 0 (align32bits ?pre),
                 curBlock := block,
                 abbrevSize := GetBlockAbbrevSize block,
                 blockStack := blockStack w @ [(block, GetByteOffset (align32bits ?pre))]\<rparr>)"
    using assms
    by (simp add: BeginBlock_def Let_def fixed_def vbr_def ENTER_SUBBLOCK_def)
  have res: "BeginBlock E block w =
         Some (w\<lparr>b := ?pre @ replicate pad False @ replicate 32 False,
                 curBlock := block,
                 abbrevSize := GetBlockAbbrevSize block,
                 blockStack := blockStack w @ [(block, ?offs)]\<rparr>)"
    unfolding step offs unfolding pad(2) Write_uint32_def by (simp add: fixed_bits_zero)
  show ?thesis
    apply (rule exI[of _ pad])
    apply (rule exI[of _ "?offs"])
    apply (simp only: pad(1) offs8 res dvd_triv_left append_assoc simp_thms)
    done
qed

theorem BeginBlock_emits_witness:
  "GetBlockAbbrevSize MODULE_BLOCK \<noteq> 0 \<and> abbrevSize sample_writer \<le> 64
   \<and> (\<exists>pad offs. pad < 32 \<and> 4 dvd offs
     \<and> 8 * offs = length (b sample_writer @ fixed_bits 2 1 @ vbr_bits 8 8 @ vbr_bits 4 3
                            @ replicate pad False)
     \<and> BeginBlock sample_enums MODULE_BLOCK sample_writer =
         Some (sample_writer\<lparr>b := b sample_writer @ fixed_bits 2 1 @ vbr_bits 8 8 @ vbr_bits 4 3
                      @ replicate pad False @ replicate 32 False,
                 curBlock := MODULE_BLOCK,
                 abbrevSize := 3,
                 blockStack := [(MODULE_BLOCK, offs)]\<rparr>))"
  using BeginBlock_emits[of MODULE_BLOCK sample_writer sample_enums]
  by (simp add: sample_writer_def BitcodeWriter_new_def sample_enums_def)

text \<open>
  Claim C8. For an unrecognised block kind (its width is 0), \<^verbatim>\<open>BeginBlock\<close> reports the
  encoding error and changes nothing else: the buffer, the block stack, the current
  block and the current width are those of before, so no frame is pushed and no bit is
  written.
\<close>

theorem BeginBlock_unrecognised:
  assumes "GetBlockAbbrevSize block = 0"
  shows "BeginBlock E block w = Some (w\<lparr>rdcerr := rdcerr w @ [Unrecognised_block block]\<rparr>)"
  using assms by (simp add: BeginBlock_def)

theorem BeginBlock_unrecognised_witness:
  "GetBlockAbbrevSize Count = 0
   \<and> BeginBlock sample_enums Count sample_writer =
       Some (sample_writer\<lparr>rdcerr := rdcerr sample_writer @ [Unrecognised_block Count]\<rparr>)"
  using BeginBlock_unrecognised[of Count sample_enums sample_writer] by simp

subsection \<open>Leaving a block\<close>

lemma EndBlock_result:
  assumes "blockStack w \<noteq> []" and "2 \<le> abbrevSize w"
    and "8 * (snd (last (blockStack w)) + 4) \<le> length (b w)"
  shows "EndBlock w =
    Some (w\<lparr>b := take (8 * snd (last (blockStack w)))
                    (align32bits (b w @ replicate (abbrevSize w) False))
                @ fixed_bits 32 (unat (word_of_nat
                    ((GetByteOffset (align32bits (b w @ replicate (abbrevSize w) False))
                       - snd (last (blockStack w)) - 4) div 4) :: 32 word))
                @ drop (8 * snd (last (blockStack w)) + 32)
                    (align32bits (b w @ replicate (abbrevSize w) False)),
             curBlock := (if butlast (blockStack w) = [] then Count
                          else fst (last (butlast (blockStack w)))),
             abbrevSize := (if butlast (blockStack w) = [] then 2
                            else GetBlockAbbrevSize (fst (last (butlast (blockStack w))))),
             blockStack := butlast (blockStack w)\<rparr>)"
proof -
  let ?B = "align32bits (b w @ replicate (abbrevSize w) False)"
  let ?offs = "snd (last (blockStack w))"
  have v: "vbr (abbrevSize w) END_BLOCK (b w) = Some (b w @ replicate (abbrevSize w) False)"
    using assms(2) by (simp add: vbr_def END_BLOCK_def vbr_bits_zero)
  have len: "8 * (?offs + 4) \<le> length ?B"
    using assms(3) length_align32bits_ge[of "b w @ replicate (abbrevSize w) False"] by simp
  then have cur: "?offs + 4 \<le> GetByteOffset ?B"
    unfolding GetByteOffset_def by (simp add: less_eq_div_iff_mult_less_eq mult.commute)
  have p: "PatchLengthWord ?offs v ?B
      = Some (take (8 * ?offs) ?B @ fixed_bits 32 (unat v) @ drop (8 * ?offs + 32) ?B)" for v
    using len by (simp add: PatchLengthWord_def)
  show ?thesis
  proof (cases "butlast (blockStack w) = []")
    case True
    then show ?thesis
      by (simp only: EndBlock_def v Let_def p length_word_conv[OF cur] assms(1)
          bind.bind_lunit if_False if_True simp_thms)
  next
    case False
    then show ?thesis
      by (simp only: EndBlock_def v Let_def p length_word_conv[OF cur] assms(1)
          bind.bind_lunit if_False if_True simp_thms)
  qed
qed


lemma drop_patched:
  assumes "k + 32 \<le> n" and "n \<le> length bw" and "length F = 32"
  shows "drop n (take k bw @ F @ drop (k + 32) bw) = drop n bw"
proof -
  have "drop n (take k bw @ F @ drop (k + 32) bw) = drop (n - k - 32 + (k + 32)) bw"
    using assms by (simp add: min_def)
  also have "n - k - 32 + (k + 32) = n"
    using assms(1) by simp
  finally show ?thesis .
qed

lemma length_PatchLengthWord:
  assumes "PatchLengthWord offs v bw = Some bw'"
  shows "length bw' = length bw"
proof -
  from assms have le: "8 * (offs + 4) \<le> length bw"
    and eq: "bw' = take (8 * offs) bw @ fixed_bits 32 (unat v) @ drop (8 * offs + 32) bw"
    by (auto simp: PatchLengthWord_def split: if_splits)
  from le show ?thesis
    unfolding eq by simp
qed

text \<open>
  Claim C9. Let \<^verbatim>\<open>EndBlock\<close> be called with a block open, at a current width between 2
  and 64 (every width the writer sets is 2, 3 or 4) and with the length word of the
  innermost frame inside the buffer, as in every state that the writer reaches with a
  block open. Then \<^verbatim>\<open>EndBlock\<close> returns. Its write of the abbreviation id 0,
  \<^verbatim>\<open>b.vbr(abbrevSize, END_BLOCK)\<close>, gives the same buffer as the fixed-width write of 0 at
  the current width: the old buffer followed by that many zero bits. The final buffer is
  that buffer, aligned to 32 bits, with the length word patched: it is longer than the
  old one by at least the current width, and right after the end of the old buffer it
  holds that many zero bits.
\<close>

theorem EndBlock_marker_is_fixed:
  assumes "blockStack w \<noteq> []" and "2 \<le> abbrevSize w" and "abbrevSize w \<le> 64"
    and "8 * (snd (last (blockStack w)) + 4) \<le> length (b w)"
  shows "\<exists>w' v. EndBlock w = Some w'
      \<and> vbr (abbrevSize w) END_BLOCK (b w) = fixed (abbrevSize w) END_BLOCK (b w)
      \<and> fixed (abbrevSize w) END_BLOCK (b w) = Some (b w @ replicate (abbrevSize w) False)
      \<and> PatchLengthWord (snd (last (blockStack w))) v
            (align32bits (b w @ replicate (abbrevSize w) False)) = Some (b w')
      \<and> length (b w) + abbrevSize w \<le> length (b w')
      \<and> take (abbrevSize w) (drop (length (b w)) (b w')) = replicate (abbrevSize w) False"
proof -
  let ?n = "abbrevSize w"
  let ?M = "b w @ replicate ?n False"
  let ?B = "align32bits ?M"
  let ?offs = "snd (last (blockStack w))"
  let ?v = "word_of_nat ((GetByteOffset ?B - ?offs - 4) div 4) :: 32 word"
  let ?b' = "take (8 * ?offs) ?B @ fixed_bits 32 (unat ?v) @ drop (8 * ?offs + 32) ?B"
  note res = EndBlock_result[OF assms(1,2,4)]
  from res obtain w' where e: "EndBlock w = Some w'" and b': "b w' = ?b'"
    by simp
  have marker: "vbr ?n END_BLOCK (b w) = fixed ?n END_BLOCK (b w)"
    "fixed ?n END_BLOCK (b w) = Some ?M"
    using assms(2,3) by (simp_all add: vbr_def fixed_def END_BLOCK_def vbr_bits_zero fixed_bits_zero)
  obtain pad where pad: "?B = ?M @ replicate pad False"
    using align32bits_pad[of ?M] by blast
  have lenB: "length (b w) + ?n \<le> length ?B"
    using length_align32bits_ge[of ?M] by simp
  have inB: "8 * ?offs + 32 \<le> length ?B"
    using assms(4) lenB by simp
  have patch: "PatchLengthWord ?offs ?v ?B = Some (b w')"
    using inB by (simp add: PatchLengthWord_def b')
  have len': "length (b w') = length ?B"
    unfolding b' using inB by simp
  have "drop (length (b w)) (b w') = drop (length (b w)) ?B"
    unfolding b' using assms(4) lenB by (intro drop_patched) simp_all
  also have "\<dots> = replicate ?n False @ replicate pad False"
    unfolding pad by simp
  finally have zeros: "take ?n (drop (length (b w)) (b w')) = replicate ?n False"
    by simp
  show ?thesis
    apply (rule exI[of _ w'])
    apply (rule exI[of _ ?v])
    apply (intro conjI)
         apply (rule e)
        apply (rule marker(1))
       apply (rule marker(2))
      apply (rule patch)
     apply (simp only: len' lenB)
    apply (rule zeros)
    done
qed

theorem EndBlock_marker_is_fixed_witness:
  "\<exists>w1 w'. BeginBlock sample_enums MODULE_BLOCK sample_writer = Some w1
     \<and> blockStack w1 \<noteq> [] \<and> 2 \<le> abbrevSize w1 \<and> abbrevSize w1 \<le> 64
     \<and> 8 * (snd (last (blockStack w1)) + 4) \<le> length (b w1)
     \<and> EndBlock w1 = Some w'
     \<and> vbr 3 END_BLOCK (b w1) = fixed 3 END_BLOCK (b w1)
     \<and> fixed 3 END_BLOCK (b w1) = Some (b w1 @ [False, False, False])
     \<and> length (b w1) = 96 \<and> length (b w') = 128
     \<and> take 3 (drop 96 (b w')) = [False, False, False]"
proof -
  have "BeginBlock sample_enums MODULE_BLOCK sample_writer \<noteq> None"
    by code_simp
  then obtain w1 where w1: "BeginBlock sample_enums MODULE_BLOCK sample_writer = Some w1"
    by blast
  have "map_option (\<lambda>w. (length (b w), abbrevSize w, blockStack w))
      (BeginBlock sample_enums MODULE_BLOCK sample_writer) = Some (96, 3, [(MODULE_BLOCK, 8)])"
    by code_simp
  then have l1: "length (b w1) = 96" and a1: "abbrevSize w1 = 3"
    and s1: "blockStack w1 = [(MODULE_BLOCK, 8)]"
    by (simp_all add: w1)
  have h: "blockStack w1 \<noteq> []" "2 \<le> abbrevSize w1" "abbrevSize w1 \<le> 64"
    "8 * (snd (last (blockStack w1)) + 4) \<le> length (b w1)"
    by (simp_all add: l1 a1 s1)
  have three: "replicate 3 False = [False, False, False]"
    by (simp add: numeral_3_eq_3)
  from EndBlock_marker_is_fixed[OF h]
  obtain w' v where r: "EndBlock w1 = Some w'"
      "vbr (abbrevSize w1) END_BLOCK (b w1) = fixed (abbrevSize w1) END_BLOCK (b w1)"
      "fixed (abbrevSize w1) END_BLOCK (b w1) = Some (b w1 @ replicate (abbrevSize w1) False)"
      "PatchLengthWord (snd (last (blockStack w1))) v
            (align32bits (b w1 @ replicate (abbrevSize w1) False)) = Some (b w')"
      "take (abbrevSize w1) (drop (length (b w1)) (b w')) = replicate (abbrevSize w1) False"
    by blast
  from r(4) have "length (b w') = length (align32bits (b w1 @ replicate (abbrevSize w1) False))"
    by (rule length_PatchLengthWord)
  then have l': "length (b w') = 128"
    by (simp add: align32bits_def l1 a1)
  from r(2,3,5) have m: "vbr 3 END_BLOCK (b w1) = fixed 3 END_BLOCK (b w1)"
      "fixed 3 END_BLOCK (b w1) = Some (b w1 @ [False, False, False])"
      "take 3 (drop 96 (b w')) = [False, False, False]"
    by (simp_all only: a1 l1 three)
  show ?thesis
    apply (rule exI[of _ w1])
    apply (rule exI[of _ w'])
    apply (intro conjI)
              apply (rule w1)
             apply (rule h(1))
            apply (rule h(2))
           apply (rule h(3))
          apply (rule h(4))
         apply (rule r(1))
        apply (rule m(1))
       apply (rule m(2))
      apply (rule l1)
     apply (rule l')
    apply (rule m(3))
    done
qed

text \<open>
  Claim C1. Let \<^verbatim>\<open>BeginBlock\<close> have succeeded on a recognised kind, giving the state
  \<open>w1\<close>, and let \<open>w2\<close> be a later state in which that block is the innermost open one:
  the same stack and width, and a buffer at least as long. Then \<^verbatim>\<open>EndBlock\<close> succeeds.
  With \<open>offs\<close> the byte offset recorded in the frame, where \<^verbatim>\<open>BeginBlock\<close> put the
  placeholder, and \<open>cur\<close> the byte offset after \<^verbatim>\<open>END_BLOCK\<close> and the alignment, the end
  of the final buffer, the little-endian 32-bit word at \<open>offs\<close> in the final buffer is
  \<open>(cur - offs - 4) div 4\<close> as a 32-bit value. That quotient is the number of 32-bit
  words written after the length word, and below \<open>2 ^ 32\<close> it is the word's value
  exactly.
\<close>

theorem EndBlock_patches_length:
  assumes "GetBlockAbbrevSize block \<noteq> 0" and "BeginBlock E block w = Some w1"
    and "blockStack w2 = blockStack w1" and "abbrevSize w2 = abbrevSize w1"
    and "length (b w1) \<le> length (b w2)"
  shows "\<exists>w3 offs cur. EndBlock w2 = Some w3
      \<and> last (blockStack w1) = (block, offs) \<and> 8 * offs + 32 = length (b w1)
      \<and> cur = GetByteOffset (align32bits (b w2 @ replicate (abbrevSize w2) False))
      \<and> 8 * cur = length (b w3)
      \<and> word_at offs (b w3) = word_of_nat ((cur - offs - 4) div 4)
      \<and> 32 * ((cur - offs - 4) div 4) = length (b w3) - length (b w1)
      \<and> ((cur - offs - 4) div 4 < 2 ^ 32
           \<longrightarrow> unat (word_at offs (b w3)) = (cur - offs - 4) div 4)"
proof -
  let ?A = "align32bits (b w @ fixed_bits (abbrevSize w) 1
              @ vbr_bits 8 (unat (block_value E block)) @ vbr_bits 4 (GetBlockAbbrevSize block))"
  let ?offs = "GetByteOffset ?A"
  let ?B = "align32bits (b w2 @ replicate (abbrevSize w2) False)"
  let ?cur = "GetByteOffset ?B"
  let ?v = "word_of_nat ((?cur - ?offs - 4) div 4) :: 32 word"
  have "abbrevSize w \<le> 64"
    using assms(1,2) by (rule BeginBlock_Some_width)
  from BeginBlock_result[OF assms(1) this, of E] assms(2)
  have w1: "w1 = w\<lparr>b := ?A @ replicate 32 False, curBlock := block,
                 abbrevSize := GetBlockAbbrevSize block,
                 blockStack := blockStack w @ [(block, ?offs)]\<rparr>"
    by simp
  have last1: "last (blockStack w1) = (block, ?offs)"
    by (simp add: w1)
  have len1: "8 * ?offs + 32 = length (b w1)"
    by (simp add: w1 GetByteOffset_aligned)
  have ne: "blockStack w2 \<noteq> []"
    by (simp add: assms(3) w1)
  have snd2: "snd (last (blockStack w2)) = ?offs"
    by (simp add: assms(3) last1)
  have w2: "2 \<le> abbrevSize w2"
    using GetBlockAbbrevSize_ge2[OF assms(1)] by (simp add: assms(4) w1)
  have in2: "8 * (?offs + 4) \<le> length (b w2)"
    using len1 assms(5) by simp
  note res = EndBlock_result[OF ne w2, unfolded snd2, OF in2]
  let ?w3 = "the (EndBlock w2)"
  have lenB: "8 * (?offs + 4) \<le> length ?B"
    using in2 length_align32bits_ge[of "b w2 @ replicate (abbrevSize w2) False"] by simp
  have b3: "b ?w3 = take (8 * ?offs) ?B @ fixed_bits 32 (unat ?v) @ drop (8 * ?offs + 32) ?B"
    by (simp add: res)
  have len3: "length (b ?w3) = length ?B"
    using lenB unfolding b3 by simp
  have cur8: "8 * ?cur = length (b ?w3)"
    by (simp only: len3 GetByteOffset_aligned)
  have word: "word_at ?offs (b ?w3) = ?v"
    unfolding b3 using lenB by (rule word_at_patched)
  obtain i where i: "?offs = 4 * i"
    using GetByteOffset_aligned_dvd[of "b w @ fixed_bits (abbrevSize w) 1
              @ vbr_bits 8 (unat (block_value E block)) @ vbr_bits 4 (GetBlockAbbrevSize block)"]
    by (auto simp: dvd_def)
  obtain j where j: "?cur = 4 * j"
    using GetByteOffset_aligned_dvd[of "b w2 @ replicate (abbrevSize w2) False"]
    by (auto simp: dvd_def)
  have "(?cur - ?offs - 4) div 4 = j - i - 1"
    unfolding i j by (simp add: diff_mult_distrib2[symmetric])
  then have "32 * ((?cur - ?offs - 4) div 4) = 8 * ?cur - (8 * ?offs + 32)"
    unfolding i j by (simp add: diff_mult_distrib2)
  then have words: "32 * ((?cur - ?offs - 4) div 4) = length (b ?w3) - length (b w1)"
    by (simp only: cur8 len1)
  have exact: "(?cur - ?offs - 4) div 4 < 2 ^ 32
      \<longrightarrow> unat (word_at ?offs (b ?w3)) = (?cur - ?offs - 4) div 4"
    unfolding word by (simp add: unat_of_nat)
  have some: "EndBlock w2 = Some ?w3"
    by (simp add: res)
  show ?thesis
    apply (rule exI[of _ ?w3])
    apply (rule exI[of _ ?offs])
    apply (rule exI[of _ ?cur])
    apply (intro conjI)
           apply (rule some)
         apply (rule last1)
        apply (rule len1)
       apply (rule refl)
      apply (rule cur8)
      apply (rule word)
     apply (rule words)
    apply (rule exact)
    done
qed


theorem EndBlock_patches_length_witness:
  "\<exists>w1 w3. GetBlockAbbrevSize MODULE_BLOCK \<noteq> 0
     \<and> BeginBlock sample_enums MODULE_BLOCK sample_writer = Some w1
     \<and> EndBlock (w1\<lparr>b := b w1 @ replicate 40 True\<rparr>) = Some w3
     \<and> last (blockStack w1) = (MODULE_BLOCK, 8)
     \<and> length (b w1) = 96 \<and> length (b w3) = 160
     \<and> word_at 8 (b w3) = 2 \<and> unat (word_at 8 (b w3)) = 2"
proof -
  have k: "GetBlockAbbrevSize MODULE_BLOCK \<noteq> 0"
    by simp
  have "BeginBlock sample_enums MODULE_BLOCK sample_writer \<noteq> None"
    by code_simp
  then obtain w1 where w1: "BeginBlock sample_enums MODULE_BLOCK sample_writer = Some w1"
    by blast
  have "map_option (\<lambda>w. (length (b w), abbrevSize w))
      (BeginBlock sample_enums MODULE_BLOCK sample_writer) = Some (96, 3)"
    by code_simp
  then have l1: "length (b w1) = 96" and a1: "abbrevSize w1 = 3"
    by (simp_all add: w1)
  let ?w2 = "w1\<lparr>b := b w1 @ replicate 40 True\<rparr>"
  from EndBlock_patches_length[OF k w1, of ?w2]
  obtain w3 offs cur where r: "EndBlock ?w2 = Some w3"
      "last (blockStack w1) = (MODULE_BLOCK, offs)" "8 * offs + 32 = length (b w1)"
      "cur = GetByteOffset (align32bits (b ?w2 @ replicate (abbrevSize ?w2) False))"
      "8 * cur = length (b w3)"
      "word_at offs (b w3) = word_of_nat ((cur - offs - 4) div 4)"
      "(cur - offs - 4) div 4 < 2 ^ 32
         \<longrightarrow> unat (word_at offs (b w3)) = (cur - offs - 4) div 4"
    by auto
  from r(3) have offs: "offs = 8"
    by (simp add: l1)
  from r(4) have cur: "cur = 20"
    by (simp add: GetByteOffset_def align32bits_def l1 a1)
  from r(5) have l3: "length (b w3) = 160"
    by (simp add: cur)
  from r(6) have "word_at 8 (b w3) = 2"
    by (simp add: offs cur)
  moreover from r(7) have "unat (word_at 8 (b w3)) = 2"
    by (simp add: offs cur)
  ultimately show ?thesis
    using k w1 r(1,2) l1 l3 offs by blast
qed

subsection \<open>The current width follows the block stack\<close>

lemma frames_ok_width:
  assumes "frames_ok w" shows "2 \<le> abbrevSize w \<and> abbrevSize w \<le> 4"
proof (cases "blockStack w = []")
  case True
  with assms show ?thesis by (simp add: frames_ok_def)
next
  case False
  then have "last (blockStack w) \<in> set (blockStack w)" by simp
  with assms have "GetBlockAbbrevSize (fst (last (blockStack w))) \<noteq> 0"
    by (auto simp: frames_ok_def list_all_iff)
  then have "2 \<le> GetBlockAbbrevSize (fst (last (blockStack w)))"
    by (rule GetBlockAbbrevSize_ge2)
  with assms False show ?thesis
    by (simp add: frames_ok_def GetBlockAbbrevSize_le4)
qed

lemma frames_ok_new: "frames_ok (BitcodeWriter_new E buf)"
  by (simp add: frames_ok_def BitcodeWriter_new_def)

lemma frames_ok_BeginBlock:
  assumes "frames_ok w" and "GetBlockAbbrevSize block \<noteq> 0"
  shows "\<exists>w1. BeginBlock E block w = Some w1 \<and> frames_ok w1
     \<and> map fst (blockStack w1) = map fst (blockStack w) @ [block]"
proof -
  let ?A = "align32bits (b w @ fixed_bits (abbrevSize w) 1
              @ vbr_bits 8 (unat (block_value E block)) @ vbr_bits 4 (GetBlockAbbrevSize block))"
  have "abbrevSize w \<le> 64"
    using frames_ok_width[OF assms(1)] by simp
  note res = BeginBlock_result[OF assms(2) this, of E]
  have ge: "length (b w) \<le> length ?A"
    using length_align32bits_ge[of "b w @ fixed_bits (abbrevSize w) 1
              @ vbr_bits 8 (unat (block_value E block)) @ vbr_bits 4 (GetBlockAbbrevSize block)"]
    by simp
  have old: "list_all (\<lambda>(block, offs). GetBlockAbbrevSize block \<noteq> 0
        \<and> 8 * (offs + 4) \<le> length (?A @ replicate 32 False)) (blockStack w)"
    using assms(1) ge by (auto simp: frames_ok_def list_all_iff)
  have new: "8 * (GetByteOffset ?A + 4) \<le> length (?A @ replicate 32 False)"
    using GetByteOffset_aligned[of "b w @ fixed_bits (abbrevSize w) 1
              @ vbr_bits 8 (unat (block_value E block)) @ vbr_bits 4 (GetBlockAbbrevSize block)"]
    by simp
  have "frames_ok (the (BeginBlock E block w))"
    unfolding res frames_ok_def using old new assms(2) by simp
  then show ?thesis
    by (simp add: res)
qed

lemma frames_ok_EndBlock:
  assumes "frames_ok w" and "blockStack w \<noteq> []"
  shows "\<exists>w1. EndBlock w = Some w1 \<and> frames_ok w1
     \<and> map fst (blockStack w1) = butlast (map fst (blockStack w))"
proof -
  let ?B = "align32bits (b w @ replicate (abbrevSize w) False)"
  let ?offs = "snd (last (blockStack w))"
  have top: "last (blockStack w) \<in> set (blockStack w)"
    using assms(2) by simp
  have in1: "8 * (?offs + 4) \<le> length (b w)"
    using assms(1) top by (auto simp: frames_ok_def list_all_iff)
  have w2: "2 \<le> abbrevSize w"
    using frames_ok_width[OF assms(1)] by simp
  note res = EndBlock_result[OF assms(2) w2 in1]
  have geB: "length (b w) \<le> length ?B"
    using length_align32bits_ge[of "b w @ replicate (abbrevSize w) False"] by simp
  have len: "length (take (8 * ?offs) ?B @ fixed_bits 32 v @ drop (8 * ?offs + 32) ?B) = length ?B" for v
    using in1 geB by simp
  have "GetBlockAbbrevSize block \<noteq> 0 \<and> 8 * (offs + 4) \<le> length ?B"
    if "(block, offs) \<in> set (butlast (blockStack w))" for block offs
  proof -
    from that have "(block, offs) \<in> set (blockStack w)"
      by (rule in_set_butlastD)
    with assms(1) have "GetBlockAbbrevSize block \<noteq> 0" "8 * (offs + 4) \<le> length (b w)"
      by (auto simp: frames_ok_def list_all_iff)
    with geB show ?thesis by simp
  qed
  then have frames: "list_all (\<lambda>(block, offs). GetBlockAbbrevSize block \<noteq> 0
        \<and> 8 * (offs + 4) \<le> length ?B) (butlast (blockStack w))"
    by (auto simp: list_all_iff)
  have st': "blockStack (the (EndBlock w)) = butlast (blockStack w)"
    and ab': "abbrevSize (the (EndBlock w)) = (if butlast (blockStack w) = [] then 2
               else GetBlockAbbrevSize (fst (last (butlast (blockStack w)))))"
    by (simp_all add: res)
  have "b (the (EndBlock w)) = take (8 * ?offs) ?B
        @ fixed_bits 32 (unat (word_of_nat ((GetByteOffset ?B - ?offs - 4) div 4) :: 32 word))
        @ drop (8 * ?offs + 32) ?B"
    by (simp add: res)
  then have len': "length (b (the (EndBlock w))) = length ?B"
    by (simp only: len)
  have "frames_ok (the (EndBlock w))"
    unfolding frames_ok_def st' ab' len' using frames by simp
  then show ?thesis
    by (simp add: res map_butlast)
qed

lemma run_calls_frames_ok:
  assumes "frames_ok w" and "well_nested (map fst (blockStack w)) calls"
  shows "\<exists>w'. run_calls E calls w = Some w' \<and> frames_ok w'
     \<and> map fst (blockStack w') = open_blocks (map fst (blockStack w)) calls"
  using assms
proof (induction calls arbitrary: w)
  case Nil
  then show ?case by simp
next
  case (Cons c calls)
  show ?case
  proof (cases c)
    case (Begin block)
    with Cons.prems have k: "GetBlockAbbrevSize block \<noteq> 0"
      and rest: "well_nested (map fst (blockStack w) @ [block]) calls"
      by simp_all
    from frames_ok_BeginBlock[OF Cons.prems(1) k, of E]
    obtain w1 where w1: "BeginBlock E block w = Some w1" "frames_ok w1"
        "map fst (blockStack w1) = map fst (blockStack w) @ [block]"
      by blast
    from Cons.IH[OF w1(2)] rest w1(3)
    obtain w' where "run_calls E calls w1 = Some w'" "frames_ok w'"
        "map fst (blockStack w') = open_blocks (map fst (blockStack w1)) calls"
      by auto
    then show ?thesis
      using Begin w1 by simp
  next
    case End
    with Cons.prems have ne: "blockStack w \<noteq> []"
      and rest: "well_nested (butlast (map fst (blockStack w))) calls"
      by simp_all
    from frames_ok_EndBlock[OF Cons.prems(1) ne]
    obtain w1 where w1: "EndBlock w = Some w1" "frames_ok w1"
        "map fst (blockStack w1) = butlast (map fst (blockStack w))"
      by blast
    from Cons.IH[OF w1(2)] rest w1(3)
    obtain w' where "run_calls E calls w1 = Some w'" "frames_ok w'"
        "map fst (blockStack w') = open_blocks (map fst (blockStack w1)) calls"
      by auto
    then show ?thesis
      using End w1 by simp
  qed
qed

text \<open>
  Claim C4. A well-nested sequence of \<^verbatim>\<open>BeginBlock\<close> and \<^verbatim>\<open>EndBlock\<close> calls on a new
  writer, every \<^verbatim>\<open>BeginBlock\<close> on a recognised kind, runs to the end; afterwards the
  open blocks are those the sequence leaves open, and the current width is the width of
  the innermost of them, or 2 when none is open. In particular, after
  \<^verbatim>\<open>BeginBlock(A); BeginBlock(B); EndBlock()\<close> the current width is the width of \<open>A\<close>.
\<close>

theorem width_follows_stack:
  assumes "well_nested [] calls"
    and "GetBlockAbbrevSize A \<noteq> 0" and "GetBlockAbbrevSize B \<noteq> 0"
  shows "(\<exists>w. run_calls E calls (BitcodeWriter_new E buf) = Some w
           \<and> map fst (blockStack w) = open_blocks [] calls
           \<and> abbrevSize w = (if blockStack w = [] then 2
                             else GetBlockAbbrevSize (fst (last (blockStack w)))))
       \<and> (\<exists>w. run_calls E [Begin A, Begin B, End] (BitcodeWriter_new E buf) = Some w
           \<and> abbrevSize w = GetBlockAbbrevSize A)"
proof
  have st: "map fst (blockStack (BitcodeWriter_new E buf)) = []"
    by (simp add: BitcodeWriter_new_def)
  from run_calls_frames_ok[OF frames_ok_new, of E buf calls E] assms(1)
  show "\<exists>w. run_calls E calls (BitcodeWriter_new E buf) = Some w
           \<and> map fst (blockStack w) = open_blocks [] calls
           \<and> abbrevSize w = (if blockStack w = [] then 2
                             else GetBlockAbbrevSize (fst (last (blockStack w))))"
    unfolding st by (auto simp: frames_ok_def)
  have "well_nested [] [Begin A, Begin B, End]"
    using assms(2,3) by simp
  with run_calls_frames_ok[OF frames_ok_new, of E buf "[Begin A, Begin B, End]" E]
  obtain w where w: "run_calls E [Begin A, Begin B, End] (BitcodeWriter_new E buf) = Some w"
      "frames_ok w" "map fst (blockStack w) = [A]"
    unfolding st by auto
  from w(3) have "blockStack w \<noteq> []" "fst (last (blockStack w)) = A"
    by (auto simp: map_eq_Cons_conv)
  with w(2) have "abbrevSize w = GetBlockAbbrevSize A"
    by (simp add: frames_ok_def)
  with w(1) show "\<exists>w. run_calls E [Begin A, Begin B, End] (BitcodeWriter_new E buf) = Some w
           \<and> abbrevSize w = GetBlockAbbrevSize A"
    by blast
qed

theorem width_follows_stack_witness:
  "well_nested [] [Begin MODULE_BLOCK, Begin FUNCTION_BLOCK, End, Begin CONSTANTS_BLOCK]
   \<and> GetBlockAbbrevSize MODULE_BLOCK \<noteq> 0 \<and> GetBlockAbbrevSize FUNCTION_BLOCK \<noteq> 0
   \<and> (\<exists>w. run_calls sample_enums
              [Begin MODULE_BLOCK, Begin FUNCTION_BLOCK, End, Begin CONSTANTS_BLOCK]
              (BitcodeWriter_new sample_enums []) = Some w
          \<and> map fst (blockStack w) = [MODULE_BLOCK, CONSTANTS_BLOCK]
          \<and> abbrevSize w = 4)
   \<and> (\<exists>w. run_calls sample_enums [Begin MODULE_BLOCK, Begin FUNCTION_BLOCK, End]
              (BitcodeWriter_new sample_enums []) = Some w
          \<and> abbrevSize w = 3)"
proof -
  have n: "well_nested [] [Begin MODULE_BLOCK, Begin FUNCTION_BLOCK, End, Begin CONSTANTS_BLOCK]"
    and a: "GetBlockAbbrevSize MODULE_BLOCK \<noteq> 0" and c: "GetBlockAbbrevSize FUNCTION_BLOCK \<noteq> 0"
    by simp_all
  from width_follows_stack[OF n a c, of sample_enums "[]"]
  show ?thesis
    using n by (auto simp: map_eq_Cons_conv)
qed

subsection \<open>Unabbreviated records\<close>

lemma vbr_vals_u32_bits:
  "vbr_vals_u32 vals bw = Some (bw @ concat (map (\<lambda>v. vbr_bits 6 (unat v)) vals))"
  by (induction vals arbitrary: bw) (simp_all add: vbr_def)

lemma vbr_vals_u64_bits:
  "vbr_vals_u64 vals bw = Some (bw @ concat (map (\<lambda>v. vbr_bits 6 (unat v)) vals))"
  by (induction vals arbitrary: bw) (simp_all add: vbr_def)

lemma Unabbrev_u32_bits:
  assumes "abbrevSize w \<le> 64"
  shows "Unabbrev_u32 record val w =
    Some (w\<lparr>b := b w @ spec_unabbrev_bits (abbrevSize w) (unat record) [unat val]\<rparr>)"
  using assms by (simp add: Unabbrev_u32_def fixed_def vbr_def spec_unabbrev_bits_def)

lemma Unabbrev_u64_bits:
  assumes "abbrevSize w \<le> 64"
  shows "Unabbrev_u64 record val w =
    Some (w\<lparr>b := b w @ spec_unabbrev_bits (abbrevSize w) (unat record) [unat val]\<rparr>)"
  using assms by (simp add: Unabbrev_u64_def fixed_def vbr_def spec_unabbrev_bits_def)

lemma Unabbrev_u32s_bits:
  assumes "abbrevSize w \<le> 64"
  shows "Unabbrev_u32s record vals w =
    Some (w\<lparr>b := b w @ spec_unabbrev_bits (abbrevSize w) (unat record) (map unat vals)\<rparr>)"
  using assms
  by (simp add: Unabbrev_u32s_def fixed_def vbr_def spec_unabbrev_bits_def vbr_vals_u32_bits
      comp_def)

lemma Unabbrev_u64s_bits:
  assumes "abbrevSize w \<le> 64"
  shows "Unabbrev_u64s record vals w =
    Some (w\<lparr>b := b w @ spec_unabbrev_bits (abbrevSize w) (unat record) (map unat vals)\<rparr>)"
  using assms
  by (simp add: Unabbrev_u64s_def fixed_def vbr_def spec_unabbrev_bits_def vbr_vals_u64_bits
      comp_def)

text \<open>
  Claim C6. At a current width of at most 64, each of the four overloads of
  \<^verbatim>\<open>Unabbrev\<close> (32-bit scalar, 64-bit scalar, 32-bit list, 64-bit list) appends the
  abbreviation id 3 as a fixed field of the current width, the record code as VBR6, the
  operand count as VBR6 (1 for a scalar, the length for a list) and each operand, at its
  full value, as VBR6, and changes nothing else. For the same record code and operands
  of the same values (a 32-bit and a 64-bit scalar of equal value, a 32-bit and a 64-bit
  list of equal values, a scalar and the list of that one element) the overloads return
  the same state, hence write the same bits.
\<close>

theorem Unabbrev_wire_shape:
  assumes "abbrevSize w \<le> 64"
  shows "Unabbrev_u32 record v32 w =
           Some (w\<lparr>b := b w @ fixed_bits (abbrevSize w) 3 @ vbr_bits 6 (unat record)
                         @ vbr_bits 6 1 @ vbr_bits 6 (unat v32)\<rparr>)
       \<and> Unabbrev_u64 record v64 w =
           Some (w\<lparr>b := b w @ fixed_bits (abbrevSize w) 3 @ vbr_bits 6 (unat record)
                         @ vbr_bits 6 1 @ vbr_bits 6 (unat v64)\<rparr>)
       \<and> Unabbrev_u32s record vals32 w =
           Some (w\<lparr>b := b w @ fixed_bits (abbrevSize w) 3 @ vbr_bits 6 (unat record)
                         @ vbr_bits 6 (length vals32)
                         @ concat (map (\<lambda>v. vbr_bits 6 (unat v)) vals32)\<rparr>)
       \<and> Unabbrev_u64s record vals64 w =
           Some (w\<lparr>b := b w @ fixed_bits (abbrevSize w) 3 @ vbr_bits 6 (unat record)
                         @ vbr_bits 6 (length vals64)
                         @ concat (map (\<lambda>v. vbr_bits 6 (unat v)) vals64)\<rparr>)
       \<and> (unat v32 = unat v64 \<longrightarrow>
             Unabbrev_u64 record v64 w = Unabbrev_u32 record v32 w
           \<and> Unabbrev_u32s record [v32] w = Unabbrev_u32 record v32 w
           \<and> Unabbrev_u64s record [v64] w = Unabbrev_u32 record v32 w)
       \<and> (map unat vals32 = map unat vals64 \<longrightarrow>
             Unabbrev_u64s record vals64 w = Unabbrev_u32s record vals32 w)"
proof -
  have lists: "Unabbrev_u64s record vals64 w = Unabbrev_u32s record vals32 w"
    if "map unat vals32 = map unat vals64"
    by (simp add: Unabbrev_u32s_bits[OF assms] Unabbrev_u64s_bits[OF assms] that)
  show ?thesis
    using lists
    by (simp add: Unabbrev_u32_bits[OF assms] Unabbrev_u64_bits[OF assms]
        Unabbrev_u32s_bits[OF assms] Unabbrev_u64s_bits[OF assms]
        spec_unabbrev_bits_def UNABBREV_RECORD_def comp_def)
qed

theorem Unabbrev_wire_shape_witness:
  "abbrevSize sample_writer \<le> 64 \<and> unat (300 :: 32 word) = unat (300 :: 64 word)
   \<and> map unat [7, 300 :: 32 word] = map unat [7, 300 :: 64 word]
   \<and> Unabbrev_u32 5 300 sample_writer =
        Some (sample_writer\<lparr>b := b sample_writer @ fixed_bits 2 3 @ vbr_bits 6 5
                @ vbr_bits 6 1 @ vbr_bits 6 300\<rparr>)
   \<and> Unabbrev_u64 5 4294967296 sample_writer =
        Some (sample_writer\<lparr>b := b sample_writer @ fixed_bits 2 3 @ vbr_bits 6 5
                @ vbr_bits 6 1 @ vbr_bits 6 4294967296\<rparr>)
   \<and> length (vbr_bits 6 4294967296) = 42
   \<and> Unabbrev_u32s 5 [7, 300] sample_writer =
        Some (sample_writer\<lparr>b := b sample_writer @ fixed_bits 2 3 @ vbr_bits 6 5
                @ vbr_bits 6 2 @ vbr_bits 6 7 @ vbr_bits 6 300\<rparr>)
   \<and> Unabbrev_u64s 5 [7, 4294967296] sample_writer =
        Some (sample_writer\<lparr>b := b sample_writer @ fixed_bits 2 3 @ vbr_bits 6 5
                @ vbr_bits 6 2 @ vbr_bits 6 7 @ vbr_bits 6 4294967296\<rparr>)
   \<and> Unabbrev_u64 5 300 sample_writer = Unabbrev_u32 5 300 sample_writer
   \<and> Unabbrev_u32s 5 [300] sample_writer = Unabbrev_u32 5 300 sample_writer
   \<and> Unabbrev_u64s 5 [300] sample_writer = Unabbrev_u32 5 300 sample_writer
   \<and> Unabbrev_u64s 5 [7, 300] sample_writer = Unabbrev_u32s 5 [7, 300] sample_writer"
proof -
  have a: "abbrevSize sample_writer \<le> 64"
    by (simp add: sample_writer_def BitcodeWriter_new_def)
  have s: "abbrevSize sample_writer = 2"
    by (simp add: sample_writer_def BitcodeWriter_new_def)
  have v: "unat (300 :: 32 word) = unat (300 :: 64 word)"
    by simp
  have vs: "map unat [7, 300 :: 32 word] = map unat [7, 300 :: 64 word]"
    by simp
  have two: "Suc (Suc 0) = 2"
    by simp
  have big: "length (vbr_bits 6 4294967296) = 42"
    by code_simp
  from Unabbrev_wire_shape[OF a, of 5 300 300 "[7, 300]" "[7, 300]"]
    Unabbrev_wire_shape[OF a, of 5 300 4294967296 "[7, 300]" "[7, 4294967296]"]
    a v vs big
  show ?thesis
    by (simp add: s two)
qed

subsection \<open>The width of a type index\<close>

lemma nat_bit_imp_ge: "bit (n::nat) k \<Longrightarrow> 2 ^ k \<le> n"
proof (rule ccontr)
  assume b: "bit n k" and "\<not> 2 ^ k \<le> n"
  then have e: "take_bit k n = n"
    by (simp add: take_bit_nat_eq_self_iff)
  have "\<not> bit (take_bit k n) k"
    by (simp add: bit_take_bit_iff)
  then have "\<not> bit n k"
    unfolding e .
  with b show False by contradiction
qed

lemma nat_no_high_bits_less:
  assumes "\<And>i. L \<le> i \<Longrightarrow> \<not> bit (n::nat) i"
  shows "n < 2 ^ L"
proof -
  have "take_bit L n = n"
  proof (rule bit_eqI)
    fix i
    show "bit (take_bit L n) i = bit n i"
      using assms[of i] by (cases "i < L") (auto simp: bit_take_bit_iff not_less)
  qed
  then show ?thesis
    by (simp add: take_bit_nat_eq_self_iff)
qed

lemma CountLeadingZeroes_bounds:
  fixes x :: "32 word"
  assumes "x \<noteq> 0"
  defines "c \<equiv> length (takeWhile (\<lambda>i. \<not> bit x i) (rev [0..<32]))"
  shows "c < 32" and "2 ^ (31 - c) \<le> unat x" and "unat x < 2 ^ (32 - c)"
proof -
  let ?P = "\<lambda>i. \<not> bit x i"
  let ?xs = "rev [0..<32::nat]"
  have c_le: "c \<le> 32"
    unfolding c_def using length_takeWhile_le[of ?P ?xs] by simp
  have nth: "?xs ! j = 31 - j" if "j < 32" for j
    using that by (simp add: rev_nth)
  have zero: "\<not> bit x (31 - j)" if "j < c" for j
  proof -
    from that c_le have j: "j < 32" by simp
    have "takeWhile ?P ?xs ! j \<in> set (takeWhile ?P ?xs)"
      using that unfolding c_def by (rule nth_mem)
    then have "?P (takeWhile ?P ?xs ! j)"
      by (rule set_takeWhileD[THEN conjunct2])
    moreover have "takeWhile ?P ?xs ! j = ?xs ! j"
      using that unfolding c_def by (rule takeWhile_nth)
    ultimately show ?thesis
      by (simp add: nth[OF j])
  qed
  show c: "c < 32"
  proof (rule ccontr)
    assume "\<not> c < 32"
    with c_le have c32: "c = 32" by simp
    have "x = 0"
    proof (rule bit_eqI)
      fix i
      show "bit x i = bit (0 :: 32 word) i"
      proof (cases "i < 32")
        case True
        then have "\<not> bit x (31 - (31 - i))"
          by (intro zero) (simp add: c32)
        with True show ?thesis by simp
      next
        case False
        then show ?thesis
          using bit_imp_le_length[of x i] by auto
      qed
    qed
    with assms(1) show False by simp
  qed
  have "\<not> ?P (?xs ! c)"
    unfolding c_def by (rule nth_length_takeWhile) (use c in \<open>simp add: c_def\<close>)
  then have "bit x (31 - c)"
    by (simp only: nth[OF c]) simp
  then have "bit (unat x) (31 - c)"
    by (simp add: bit_unsigned_iff)
  then show "2 ^ (31 - c) \<le> unat x"
    by (rule nat_bit_imp_ge)
  show "unat x < 2 ^ (32 - c)"
  proof (rule nat_no_high_bits_less)
    fix i assume i: "32 - c \<le> i"
    show "\<not> bit (unat x) i"
    proof (cases "i < 32")
      case True
      with i have "31 - i < c" by simp
      then have "\<not> bit x (31 - (31 - i))" by (rule zero)
      with True show ?thesis by (simp add: bit_unsigned_iff)
    next
      case False
      then show ?thesis
        using bit_imp_le_length[of x i] by (auto simp: bit_unsigned_iff)
    qed
  qed
qed

lemma bit_length_numTypes:
  assumes "numTypes \<noteq> 0"
  shows "32 - CountLeadingZeroes numTypes = word_of_nat (floorlog 2 (unat numTypes))"
    and "1 \<le> floorlog 2 (unat numTypes)" and "floorlog 2 (unat numTypes) \<le> 32"
proof -
  define c where "c = length (takeWhile (\<lambda>i. \<not> bit numTypes i) (rev [0..<32]))"
  note bounds = CountLeadingZeroes_bounds[OF assms, folded c_def]
  have "floorlog 2 (unat numTypes) \<le> 32 - c"
    using bounds(3) by (intro floorlog_leI) simp_all
  moreover have "32 - c \<le> floorlog 2 (unat numTypes)"
    using bounds(1,2) by (intro floorlog_geI) (simp_all add: diff_diff_eq)
  ultimately have fl: "floorlog 2 (unat numTypes) = 32 - c"
    by simp
  show "1 \<le> floorlog 2 (unat numTypes)" "floorlog 2 (unat numTypes) \<le> 32"
    using bounds(1) by (simp_all add: fl)
  have "(32 :: 32 word) - word_of_nat c = word_of_nat (32 - c)"
    using bounds(1) by (simp add: of_nat_diff)
  then show "32 - CountLeadingZeroes numTypes = word_of_nat (floorlog 2 (unat numTypes))"
    by (simp add: CountLeadingZeroes_def c_def[symmetric] fl)
qed

lemma floorlog_ceillog2:
  assumes "0 < n"
  shows "floorlog 2 n = ceillog2 (n + 1)"
proof -
  from floorlog_bounds[of n 2] assms
  have lo: "2 ^ (floorlog 2 n - 1) \<le> n" and hi: "n < 2 ^ floorlog 2 n"
    by simp_all
  have pos: "0 < floorlog 2 n"
    using assms by (simp add: floorlog_def)
  then have "(2::nat) ^ floorlog 2 n = 2 * 2 ^ (floorlog 2 n - 1)"
    by (cases "floorlog 2 n") simp_all
  with lo have "2 ^ floorlog 2 n < 2 * (n + 1)"
    by simp
  moreover from hi have "n + 1 \<le> 2 ^ floorlog 2 n"
    by simp
  ultimately show ?thesis
    by (intro ceillog2_eqI[symmetric])
qed


lemma fixed_bits_one: "fixed_bits (Suc 0) val = [odd val]"
  by (simp add: fixed_bits_Suc) (simp add: fixed_bits_def)

lemma write_param_bits:
  "write_param E numTypes p bw = Some (bw @ spec_param_bits E (subst_numTypes numTypes p))"
  by (simp add: write_param_def Let_def fixed_def vbr_def spec_param_bits_def fixed_bits_one)

lemma unat_ucast_32_64: "unat (ucast (x :: 32 word) :: 64 word) = unat x"
proof -
  have "unat x < 2 ^ 32"
    using unsigned_less[of x, where 'a = nat] by simp
  also have "\<dots> \<le> (2::nat) ^ 64"
    by (rule power_increasing) simp_all
  finally show ?thesis
    by (simp add: unsigned_ucast_eq take_bit_nat_eq_self_iff[THEN iffD2])
qed

lemma subst_numTypes_magic:
  assumes "numTypes \<noteq> 0" and "pvalue p = MagicFixedSizeNumTypes"
  shows "encoding (subst_numTypes numTypes p) = encoding p"
    and "unat (pvalue (subst_numTypes numTypes p)) = floorlog 2 (unat numTypes)"
proof -
  show "encoding (subst_numTypes numTypes p) = encoding p"
    by (simp add: subst_numTypes_def)
  have "floorlog 2 (unat numTypes) < 2 ^ 32"
    using bit_length_numTypes(3)[OF assms(1)] by simp
  then have "unat (word_of_nat (floorlog 2 (unat numTypes)) :: 32 word) = floorlog 2 (unat numTypes)"
    by (simp add: unat_of_nat)
  then show "unat (pvalue (subst_numTypes numTypes p)) = floorlog 2 (unat numTypes)"
    using assms(2)
    by (simp add: subst_numTypes_def bit_length_numTypes(1)[OF assms(1)] unat_ucast_32_64)
qed

text \<open>
  Claim C2, as amended. For \<open>numTypes \<ge> 1\<close>, a parameter with a width (kind Fixed or VBR)
  whose declared width is the magic 99 is written with the width
  \<open>32 - CountLeadingZeroes numTypes\<close>, which is the bit length \<open>floorlog 2 numTypes\<close> of
  \<open>numTypes\<close>, that is \<open>\<lfloor>log\<^sub>2 numTypes\<rfloor> + 1\<close>, or \<open>\<lceil>log\<^sub>2 (numTypes + 1)\<rceil>\<close>.
\<close>

theorem numTypes_width_is_bit_length:
  assumes "1 \<le> numTypes" and "pvalue p = MagicFixedSizeNumTypes"
    and "encoding p = Fixed \<or> encoding p = VBR"
  shows "write_param E numTypes p bw =
           Some (bw @ [False] @ fixed_bits 3 (unat (encoding_value E (encoding p)))
                   @ vbr_bits 5 (floorlog 2 (unat numTypes)))
       \<and> floorlog 2 (unat numTypes) = ceillog2 (unat numTypes + 1)"
proof -
  from assms(1) have nz: "numTypes \<noteq> 0"
    by auto
  then have "0 < unat numTypes"
    by (simp add: unat_gt_0)
  then have "floorlog 2 (unat numTypes) = ceillog2 (unat numTypes + 1)"
    by (rule floorlog_ceillog2)
  moreover have "write_param E numTypes p bw =
           Some (bw @ [False] @ fixed_bits 3 (unat (encoding_value E (encoding p)))
                   @ vbr_bits 5 (floorlog 2 (unat numTypes)))"
    using assms(3)
    by (auto simp: write_param_bits spec_param_bits_def subst_numTypes_magic[OF nz assms(2)])
  ultimately show ?thesis
    by simp
qed

theorem numTypes_width_is_bit_length_witness:
  "(1 :: 32 word) \<le> 4 \<and> pvalue AbbFixedTypes = MagicFixedSizeNumTypes
   \<and> (encoding AbbFixedTypes = Fixed \<or> encoding AbbFixedTypes = VBR)
   \<and> write_param sample_enums 4 AbbFixedTypes [] =
        Some ([False] @ fixed_bits 3 1 @ vbr_bits 5 (floorlog 2 4))
   \<and> floorlog 2 4 = ceillog2 5 \<and> floorlog 2 4 = 3"
proof -
  have a: "(1 :: 32 word) \<le> 4" by simp
  have m: "pvalue AbbFixedTypes = MagicFixedSizeNumTypes"
    by (simp add: AbbFixedTypes_def AbbFixed_def)
  have e: "encoding AbbFixedTypes = Fixed \<or> encoding AbbFixedTypes = VBR"
    by (simp add: AbbFixedTypes_def AbbFixed_def)
  have f: "floorlog 2 4 = 3"
    using floorlog_power[of 1 2 2] by (simp add: floorlog_def)
  from numTypes_width_is_bit_length[OF a m e, of sample_enums "[]"] a m e f
  show ?thesis
    by (simp add: AbbFixedTypes_def AbbFixed_def sample_enums_def)
qed

text \<open>
  Claim C2 as stated, with the width \<open>\<lceil>log\<^sub>2 numTypes\<rceil>\<close>, fails at \<open>numTypes = 4\<close>: the
  parameter \<open>AbbFixedTypes\<close> is written with the width 3, and \<open>\<lceil>log\<^sub>2 4\<rceil> = 2\<close>.
\<close>

theorem numTypes_width_not_ceillog2:
  "(1 :: 32 word) \<le> 4 \<and> pvalue AbbFixedTypes = MagicFixedSizeNumTypes
   \<and> encoding AbbFixedTypes = Fixed
   \<and> ceillog2 (unat (4 :: 32 word)) = 2
   \<and> pvalue (subst_numTypes 4 AbbFixedTypes) = 3
   \<and> write_param sample_enums 4 AbbFixedTypes [] =
        Some ([False] @ fixed_bits 3 1 @ [True, True, False, False, False])
   \<and> vbr_bits 5 (ceillog2 (unat (4 :: 32 word))) = [False, True, False, False, False]
   \<and> write_param sample_enums 4 AbbFixedTypes [] \<noteq>
        Some ([False] @ fixed_bits 3 1 @ vbr_bits 5 (ceillog2 (unat (4 :: 32 word))))"
proof -
  have c: "ceillog2 (unat (4 :: 32 word)) = 2"
    using ceillog2_2_power[of 2] by simp
  have v2: "vbr_bits 5 2 = [False, True, False, False, False]"
    by code_simp
  have s: "pvalue (subst_numTypes 4 AbbFixedTypes) = 3"
    by code_simp
  have w: "write_param sample_enums 4 AbbFixedTypes [] =
        Some ([False] @ fixed_bits 3 1 @ [True, True, False, False, False])"
    by code_simp
  show ?thesis
    unfolding c v2 w s by (simp add: AbbFixedTypes_def AbbFixed_def)
qed

subsection \<open>The module-level BLOCKINFO block\<close>















subsection \<open>The magic width in the tables\<close>

lemma list_all_AbbrevDefinition:
  assumes "list_all P ps" and "P \<lparr>encoding = Unknown, pvalue = 0\<rparr>"
  shows "list_all P (AbbrevDefinition ps)"
  using assms by (auto simp: AbbrevDefinition_def list_all_iff)

text \<open>
  The tables, apart from their literals. Every element of the three tables that is not a
  literal and has the value 99 has the kind Fixed, and the substitution, which looks at
  the value alone, leaves every element that is neither a literal nor of the kind Fixed
  as it is: it changes no VBR width. The literals are record codes, whose values are
  declared outside this file.
\<close>

lemma tables_magic_apart_from_literals:
  "list_all (\<lambda>p. encoding p \<noteq> Literal \<longrightarrow>
                  (pvalue p = MagicFixedSizeNumTypes \<longrightarrow> encoding p = Fixed)
                  \<and> (encoding p \<noteq> Fixed \<longrightarrow> subst_numTypes numTypes p = p))
     (table_params E)"
  by (simp add: table_params_def ValueSymtabAbbrevDefs_def ConstantsAbbrevDefs_def
      FunctionAbbrevDefs_def list_all_AbbrevDefinition AbbFixed_def AbbVBR_def AbbArray_def
      AbbLiteral_def AbbChar6_def AbbFixedTypes_def MagicFixedSizeNumTypes_def
      subst_numTypes_def)

end
